theory Spec2Isabelle
  imports Complex_Main "HOL-Library.Multiset"
begin

section \<open>Data model of \<open>src/lib/chess-engine.ts\<close>\<close>

text \<open>
  The types imported from the rules library: \<open>Color = 'w' | 'b'\<close>,
  \<open>PieceSymbol = 'p' | 'n' | 'b' | 'r' | 'q' | 'k'\<close>, squares as two-character strings,
  the \<open>{type, color}\<close> objects found on the board and the verbose \<open>Move\<close> objects.
  The bishop is \<open>Bi\<close>; the fields \<open>from\<close> and \<open>to\<close> of a move are \<open>mfrom\<close> and \<open>mto\<close>,
  and an absent \<open>captured\<close> or \<open>promotion\<close> is \<open>None\<close>.
\<close>

datatype Color = W | B

datatype PieceSymbol = P | N | Bi | R | Q | K

type_synonym Square = string

record Piece =
  ptype :: PieceSymbol
  pcolor :: Color

record Move =
  color :: Color
  mfrom :: Square
  mto :: Square
  piece :: PieceSymbol
  captured :: "PieceSymbol option"
  promotion :: "PieceSymbol option"

datatype Difficulty = Easy | Medium | Hard

text \<open>
  The numbers the search handles: the evaluator returns an integer sum or one of the
  two infinities of JavaScript, and the search only compares them and takes
  \<open>Math.max\<close> and \<open>Math.min\<close>.
\<close>

datatype num = NegInf | Fin int | PosInf

instantiation num :: linorder
begin

fun less_eq_num :: "num \<Rightarrow> num \<Rightarrow> bool" where
  "less_eq_num NegInf y = True"
| "less_eq_num (Fin a) NegInf = False"
| "less_eq_num (Fin a) (Fin b) = (a \<le> b)"
| "less_eq_num (Fin a) PosInf = True"
| "less_eq_num PosInf PosInf = True"
| "less_eq_num PosInf y = False"

definition less_num :: "num \<Rightarrow> num \<Rightarrow> bool" where
  "less_num x y = (x \<le> y \<and> \<not> y \<le> x)"

instance
proof
  fix x y z :: num
  show "(x < y) = (x \<le> y \<and> \<not> y \<le> x)"
    by (simp add: less_num_def)
  show "x \<le> x"
    by (cases x) simp_all
  show "x \<le> y \<Longrightarrow> y \<le> z \<Longrightarrow> x \<le> z"
    by (cases x; cases y; cases z) simp_all
  show "x \<le> y \<Longrightarrow> y \<le> x \<Longrightarrow> x = y"
    by (cases x; cases y) simp_all
  show "x \<le> y \<or> y \<le> x"
    by (cases x; cases y) auto
qed

end

subsection \<open>The rules library\<close>

text \<open>
  Modelled from the spec: the rules library (\<open>chess.js\<close>) is an external collaborator and is
  taken as a parameter, the capability set of section 6 of the specification. A value of
  type \<open>'p\<close> is everything the library's queries depend on. \<open>legal\<close> is
  \<open>moves({verbose: true})\<close>, \<open>apply\<close> the position after a legal move, \<open>resolve\<close> the
  library's answer to a \<open>{from, to, promotion}\<close> request (\<open>None\<close> where it throws), and
  \<open>board p row col\<close> is \<open>board()[row][col]\<close> for \<open>row, col < 8\<close>.
\<close>

record 'p rules =
  legal :: "'p \<Rightarrow> Move list"
  apply_to :: "'p \<Rightarrow> Move \<Rightarrow> 'p"
  resolve :: "'p \<Rightarrow> Square \<Rightarrow> Square \<Rightarrow> PieceSymbol \<Rightarrow> Move option"
  turn :: "'p \<Rightarrow> Color"
  fen :: "'p \<Rightarrow> string"
  isCheck :: "'p \<Rightarrow> bool"
  isCheckmate :: "'p \<Rightarrow> bool"
  isStalemate :: "'p \<Rightarrow> bool"
  isDraw :: "'p \<Rightarrow> bool"
  isGameOver :: "'p \<Rightarrow> bool"
  board :: "'p \<Rightarrow> nat \<Rightarrow> nat \<Rightarrow> Piece option"

text \<open>
  Modelled from the spec: the \<open>Chess\<close> object, with the push/pop discipline of section 6:
  the current position and, for every move made and not yet undone, the move and the
  position it was made in (most recent first). \<open>push\<close> is \<open>move\<close> given a move object
  that \<open>moves\<close> produced for the current position, as the search does; \<open>move_request\<close>
  is \<open>move\<close> given \<open>{from, to, promotion}\<close>, which throws, before it changes anything,
  when the library finds no legal move for the request; \<open>history\<close> is
  \<open>history({verbose: true})\<close>, oldest move first.
\<close>

record 'p Chess =
  position :: 'p
  made :: "(Move \<times> 'p) list"

definition push :: "'p rules \<Rightarrow> 'p Chess \<Rightarrow> Move \<Rightarrow> 'p Chess" where
  "push E g m = \<lparr>position = apply_to E (position g) m, made = (m, position g) # made g\<rparr>"

datatype error = InvalidMove

definition move_request ::
  "'p rules \<Rightarrow> 'p Chess \<Rightarrow> Square \<Rightarrow> Square \<Rightarrow> PieceSymbol \<Rightarrow> error + (Move \<times> 'p Chess)" where
  "move_request E g f t pr =
     (case resolve E (position g) f t pr of
        None \<Rightarrow> Inl InvalidMove
      | Some m \<Rightarrow> Inr (m, push E g m))"

definition undo :: "'p Chess \<Rightarrow> Move option \<times> 'p Chess" where
  "undo g =
     (case made g of
        [] \<Rightarrow> (None, g)
      | (m, p) # rest \<Rightarrow> (Some m, \<lparr>position = p, made = rest\<rparr>))"

definition history :: "'p Chess \<Rightarrow> Move list" where
  "history g = rev (map fst (made g))"

subsection \<open>The engine object\<close>

record 'p ChessEngine =
  game :: "'p Chess"
  difficulty :: Difficulty
  playerColor :: Color

record Captured =
  w :: "PieceSymbol list"
  b :: "PieceSymbol list"

record GameState =
  gs_fen :: string
  gs_turn :: Color
  gs_isCheck :: bool
  gs_isCheckmate :: bool
  gs_isStalemate :: bool
  gs_isDraw :: bool
  gs_isGameOver :: bool
  moveHistory :: "Move list"
  capturedPieces :: Captured

fun PIECE_VALUES :: "PieceSymbol \<Rightarrow> int" where
  "PIECE_VALUES P = 100"
| "PIECE_VALUES N = 320"
| "PIECE_VALUES Bi = 330"
| "PIECE_VALUES R = 500"
| "PIECE_VALUES Q = 900"
| "PIECE_VALUES K = 20000"

definition PAWN_TABLE :: "int list list" where
  "PAWN_TABLE =
    [[0, 0, 0, 0, 0, 0, 0, 0],
     [50, 50, 50, 50, 50, 50, 50, 50],
     [10, 10, 20, 30, 30, 20, 10, 10],
     [5, 5, 10, 25, 25, 10, 5, 5],
     [0, 0, 0, 20, 20, 0, 0, 0],
     [5, -5, -10, 0, 0, -10, -5, 5],
     [5, 10, 10, -20, -20, 10, 10, 5],
     [0, 0, 0, 0, 0, 0, 0, 0]]"

definition KNIGHT_TABLE :: "int list list" where
  "KNIGHT_TABLE =
    [[-50, -40, -30, -30, -30, -30, -40, -50],
     [-40, -20, 0, 0, 0, 0, -20, -40],
     [-30, 0, 10, 15, 15, 10, 0, -30],
     [-30, 5, 15, 20, 20, 15, 5, -30],
     [-30, 0, 15, 20, 20, 15, 0, -30],
     [-30, 5, 10, 15, 15, 10, 5, -30],
     [-40, -20, 0, 5, 5, 0, -20, -40],
     [-50, -40, -30, -30, -30, -30, -40, -50]]"

text \<open>\<open>getCapturedPieces\<close>: one pass over the history, pushing onto \<open>captured.w\<close> or
  \<open>captured.b\<close>.\<close>

fun getCapturedPieces_loop :: "Move list \<Rightarrow> Captured \<Rightarrow> Captured" where
  "getCapturedPieces_loop [] acc = acc"
| "getCapturedPieces_loop (m # ms) acc =
     (case captured m of
        Some c \<Rightarrow>
          (if color m = W
           then getCapturedPieces_loop ms (acc\<lparr>w := w acc @ [c]\<rparr>)
           else getCapturedPieces_loop ms (acc\<lparr>b := b acc @ [c]\<rparr>))
      | None \<Rightarrow> getCapturedPieces_loop ms acc)"

definition getCapturedPieces :: "Move list \<Rightarrow> Captured" where
  "getCapturedPieces h = getCapturedPieces_loop h \<lparr>w = [], b = []\<rparr>"

definition getState :: "'p rules \<Rightarrow> 'p ChessEngine \<Rightarrow> GameState" where
  "getState E e =
     (let h = history (game e);
          p = position (game e)
      in \<lparr>gs_fen = fen E p, gs_turn = turn E p, gs_isCheck = isCheck E p,
          gs_isCheckmate = isCheckmate E p, gs_isStalemate = isStalemate E p,
          gs_isDraw = isDraw E p, gs_isGameOver = isGameOver E p,
          moveHistory = h, capturedPieces = getCapturedPieces h\<rparr>)"

text \<open>\<open>makeMove\<close>: the request goes to the library with \<open>promotion || 'q'\<close>; a throw is
  caught and answered by \<open>null\<close>.\<close>

definition makeMove ::
  "'p rules \<Rightarrow> 'p ChessEngine \<Rightarrow> Square \<Rightarrow> Square \<Rightarrow> PieceSymbol option
     \<Rightarrow> Move option \<times> 'p ChessEngine" where
  "makeMove E e f t pr =
     (case move_request E (game e) f t (case pr of Some x \<Rightarrow> x | None \<Rightarrow> Q) of
        Inr (m, g') \<Rightarrow> (Some m, e\<lparr>game := g'\<rparr>)
      | Inl err \<Rightarrow> (None, e))"

definition undoMove :: "'p ChessEngine \<Rightarrow> Move option \<times> 'p ChessEngine" where
  "undoMove e = (case undo (game e) of (r, g') \<Rightarrow> (r, e\<lparr>game := g'\<rparr>))"

subsection \<open>The evaluator\<close>

text \<open>The body of the two nested loops of \<open>evaluateBoard\<close> for one square: the signed
  contribution of what stands on \<open>board[row][col]\<close>.\<close>

definition square_score :: "Piece option \<Rightarrow> nat \<Rightarrow> nat \<Rightarrow> int" where
  "square_score sq row col =
     (case sq of
        None \<Rightarrow> 0
      | Some pc \<Rightarrow>
          (let v = PIECE_VALUES (ptype pc);
               v = (if ptype pc = P
                    then v + (if pcolor pc = W then PAWN_TABLE ! row ! col
                              else PAWN_TABLE ! (7 - row) ! col)
                    else if ptype pc = N
                    then v + (if pcolor pc = W then KNIGHT_TABLE ! row ! col
                              else KNIGHT_TABLE ! (7 - row) ! col)
                    else v)
           in if pcolor pc = W then v else - v))"

definition material :: "'p rules \<Rightarrow> 'p \<Rightarrow> int" where
  "material E p =
     fold (\<lambda>row score.
             fold (\<lambda>col score. score + square_score (board E p row col) row col) [0..<8] score)
          [0..<8] 0"

definition evaluateBoard :: "'p rules \<Rightarrow> 'p Chess \<Rightarrow> num" where
  "evaluateBoard E g =
     (if isCheckmate E (position g)
      then (if turn E (position g) = W then NegInf else PosInf)
      else if isDraw E (position g) then Fin 0
      else Fin (material E (position g)))"

subsection \<open>The win probability\<close>

record WinProbability =
  white :: int
  black :: int

text \<open>\<open>Math.round(1 / (1 + Math.pow(10, -evaluation / 400)) * 100)\<close>, with the doubles of
  JavaScript read as real numbers; \<open>Math.round\<close> rounds halves up, as \<^const>\<open>round\<close>
  does. The power of ten is \<open>0\<close> at \<open>-Infinity\<close> and \<open>Infinity\<close> at \<open>Infinity\<close>.\<close>

fun whiteWin :: "num \<Rightarrow> int" where
  "whiteWin (Fin ev) = round (1 / (1 + 10 powr (- real_of_int ev / 400)) * 100)"
| "whiteWin PosInf = 100"
| "whiteWin NegInf = 0"

definition getWinProbability :: "'p rules \<Rightarrow> 'p Chess \<Rightarrow> WinProbability" where
  "getWinProbability E g =
     (let evaluation = evaluateBoard E g
      in if isCheckmate E (position g)
         then (if turn E (position g) = W then \<lparr>white = 0, black = 100\<rparr>
               else \<lparr>white = 100, black = 0\<rparr>)
         else if isDraw E (position g) then \<lparr>white = 50, black = 50\<rparr>
         else \<lparr>white = whiteWin evaluation, black = 100 - whiteWin evaluation\<rparr>)"

subsection \<open>The search\<close>

fun getSearchDepth :: "Difficulty \<Rightarrow> nat" where
  "getSearchDepth Easy = 1"
| "getSearchDepth Medium = 2"
| "getSearchDepth Hard = 3"

text \<open>
  \<open>minimax\<close> works on the one shared \<open>Chess\<close> object: every candidate is played on it,
  searched and taken back, so the model threads the object through and returns it with
  the value. \<open>max_loop\<close> and \<open>min_loop\<close> are the two \<open>for\<close> loops, over the moves still to
  try, with \<open>maxEval\<close> (\<open>minEval\<close>), \<open>alpha\<close> and \<open>beta\<close> as loop state; their depth
  argument is that of the recursive call, \<open>depth - 1\<close>.
\<close>

fun minimax :: "'p rules \<Rightarrow> nat \<Rightarrow> num \<Rightarrow> num \<Rightarrow> bool \<Rightarrow> 'p Chess \<Rightarrow> num \<times> 'p Chess"
  and max_loop ::
    "'p rules \<Rightarrow> nat \<Rightarrow> Move list \<Rightarrow> num \<Rightarrow> num \<Rightarrow> num \<Rightarrow> 'p Chess \<Rightarrow> num \<times> 'p Chess"
  and min_loop ::
    "'p rules \<Rightarrow> nat \<Rightarrow> Move list \<Rightarrow> num \<Rightarrow> num \<Rightarrow> num \<Rightarrow> 'p Chess \<Rightarrow> num \<times> 'p Chess"
where
  "minimax E 0 alpha beta isMaximizing g = (evaluateBoard E g, g)"
| "minimax E (Suc d) alpha beta isMaximizing g =
     (if isGameOver E (position g) then (evaluateBoard E g, g)
      else if isMaximizing then max_loop E d (legal E (position g)) NegInf alpha beta g
      else min_loop E d (legal E (position g)) PosInf alpha beta g)"
| "max_loop E d [] maxEval alpha beta g = (maxEval, g)"
| "max_loop E d (m # ms) maxEval alpha beta g =
     (case minimax E d alpha beta False (push E g m) of
        (evalScore, g') \<Rightarrow>
          (let g'' = snd (undo g');
               maxEval = max maxEval evalScore;
               alpha = max alpha evalScore
           in if beta \<le> alpha then (maxEval, g'')
              else max_loop E d ms maxEval alpha beta g''))"
| "min_loop E d [] minEval alpha beta g = (minEval, g)"
| "min_loop E d (m # ms) minEval alpha beta g =
     (case minimax E d alpha beta True (push E g m) of
        (evalScore, g') \<Rightarrow>
          (let g'' = snd (undo g');
               minEval = min minEval evalScore;
               beta = min beta evalScore
           in if beta \<le> alpha then (minEval, g'')
              else min_loop E d ms minEval alpha beta g''))"

text \<open>
  \<open>shuffleArray\<close>: \<open>rnd i\<close> is the number \<open>Math.random()\<close> returns in the iteration with
  index \<open>i\<close>; the destructuring assignment reads both cells before it writes them.
\<close>

fun shuffle_loop :: "(nat \<Rightarrow> real) \<Rightarrow> nat \<Rightarrow> 'a list \<Rightarrow> 'a list" where
  "shuffle_loop rnd 0 array = array"
| "shuffle_loop rnd (Suc i) array =
     (let j = nat \<lfloor>rnd (Suc i) * real (Suc i + 1)\<rfloor>
      in shuffle_loop rnd i (array[Suc i := array ! j, j := array ! Suc i]))"

definition shuffleArray :: "(nat \<Rightarrow> real) \<Rightarrow> 'a list \<Rightarrow> 'a list" where
  "shuffleArray rnd array = shuffle_loop rnd (length array - 1) array"

text \<open>The loop of \<open>getBestMove\<close> over the shuffled moves, with \<open>bestMove\<close> and \<open>bestValue\<close>
  as loop state.\<close>

fun best_loop ::
  "'p rules \<Rightarrow> nat \<Rightarrow> bool \<Rightarrow> Move list \<Rightarrow> Move option \<Rightarrow> num \<Rightarrow> 'p Chess
     \<Rightarrow> Move option \<times> num \<times> 'p Chess" where
  "best_loop E depth isMaximizing [] bestMove bestValue g = (bestMove, bestValue, g)"
| "best_loop E depth isMaximizing (m # ms) bestMove bestValue g =
     (case minimax E (depth - 1) NegInf PosInf (\<not> isMaximizing) (push E g m) of
        (v, g') \<Rightarrow>
          (let g'' = snd (undo g')
           in if isMaximizing
              then (if bestValue < v then best_loop E depth isMaximizing ms (Some m) v g''
                    else best_loop E depth isMaximizing ms bestMove bestValue g'')
              else (if v < bestValue then best_loop E depth isMaximizing ms (Some m) v g''
                    else best_loop E depth isMaximizing ms bestMove bestValue g'')))"

definition search_root ::
  "'p rules \<Rightarrow> (nat \<Rightarrow> real) \<Rightarrow> 'p ChessEngine \<Rightarrow> Move option \<times> num \<times> 'p Chess" where
  "search_root E rnd e =
     (let depth = getSearchDepth (difficulty e);
          isMaximizing = (turn E (position (game e)) = W);
          moves = shuffleArray rnd (legal E (position (game e)))
      in best_loop E depth isMaximizing moves None
           (if isMaximizing then NegInf else PosInf) (game e))"

definition getBestMove ::
  "'p rules \<Rightarrow> (nat \<Rightarrow> real) \<Rightarrow> 'p ChessEngine \<Rightarrow> Move option \<times> 'p ChessEngine" where
  "getBestMove E rnd e =
     (case search_root E rnd e of (bestMove, bestValue, g') \<Rightarrow> (bestMove, e\<lparr>game := g'\<rparr>))"

text \<open>
  The unpruned minimax of the specification (steps 3, 4 and 6 of section 4.2, without
  step 5): the same alternation of roles and the same leaf test, every sibling examined.
\<close>

fun unpruned_minimax :: "'p rules \<Rightarrow> nat \<Rightarrow> bool \<Rightarrow> 'p \<Rightarrow> num" where
  "unpruned_minimax E 0 isMaximizing p =
     evaluateBoard E \<lparr>position = p, made = []\<rparr>"
| "unpruned_minimax E (Suc d) isMaximizing p =
     (if isGameOver E p then evaluateBoard E \<lparr>position = p, made = []\<rparr>
      else if isMaximizing
      then fold max (map (\<lambda>m. unpruned_minimax E d False (apply_to E p m)) (legal E p)) NegInf
      else fold min (map (\<lambda>m. unpruned_minimax E d True (apply_to E p m)) (legal E p)) PosInf)"

subsection \<open>Board coordinates\<close>

text \<open>\<open>squareToCoords\<close>, on the sixty-four square names \<open>a1\<close> to \<open>h8\<close>: the pair is
  \<open>(row, col)\<close>.\<close>

definition squareToCoords :: "Square \<Rightarrow> nat \<times> nat" where
  "squareToCoords square = (8 - (of_char (square ! 1) - 48), of_char (square ! 0) - 97)"

section \<open>A scripted rules library\<close>

text \<open>
  Concrete positions need a concrete rules library. A scripted one is a table: a position
  is the side to move with the placement of the pieces, the legal moves of a position are
  read from a book, a move relocates one piece (taking what stands on the target square and
  promoting where the move says so), a request is resolved to the first legal move with its
  squares whose promotion, if it has one, is the requested piece, and the mated and the
  stalemated positions are listed. A stalemate counts as a draw, as it does for
  \<open>chess.js\<close>.
\<close>

type_synonym layout = "Color \<times> ((nat \<times> nat) \<times> Piece) list"

definition plain :: "Color \<Rightarrow> PieceSymbol \<Rightarrow> Square \<Rightarrow> Square \<Rightarrow> Move" where
  "plain c pc f t =
     \<lparr>color = c, mfrom = f, mto = t, piece = pc, captured = None, promotion = None\<rparr>"

definition relocate :: "layout \<Rightarrow> Move \<Rightarrow> layout" where
  "relocate p m =
     (let f = squareToCoords (mfrom m);
          t = squareToCoords (mto m);
          pc = \<lparr>ptype = (case promotion m of Some x \<Rightarrow> x | None \<Rightarrow> piece m),
                pcolor = color m\<rparr>
      in (if fst p = W then B else W,
          (t, pc) # filter (\<lambda>e. fst e \<noteq> f \<and> fst e \<noteq> t) (snd p)))"

definition scripted :: "(layout \<times> Move list) list \<Rightarrow> layout list \<Rightarrow> layout list \<Rightarrow> layout rules" where
  "scripted book mates stales =
     \<lparr>legal = (\<lambda>p. case map_of book p of Some ms \<Rightarrow> ms | None \<Rightarrow> []),
      apply_to = relocate,
      resolve = (\<lambda>p f t pr.
        find (\<lambda>m. mfrom m = f \<and> mto m = t \<and> (promotion m = None \<or> promotion m = Some pr))
          (case map_of book p of Some ms \<Rightarrow> ms | None \<Rightarrow> [])),
      turn = fst,
      fen = (\<lambda>p. []),
      isCheck = (\<lambda>p. p \<in> set mates),
      isCheckmate = (\<lambda>p. p \<in> set mates),
      isStalemate = (\<lambda>p. p \<in> set stales),
      isDraw = (\<lambda>p. p \<in> set stales),
      isGameOver = (\<lambda>p. p \<in> set mates \<or> p \<in> set stales),
      board = (\<lambda>p row col. map_of (snd p) (row, col))\<rparr>"

text \<open>
  Modelled from the spec: the standard starting position (section 8), that is
  \<open>board()\<close> of a fresh \<open>Chess\<close> object; row \<open>0\<close> is the eighth rank, column \<open>0\<close> the
  a-file.
\<close>

definition STARTING_LAYOUT :: layout where
  "STARTING_LAYOUT =
     (W,
      [((0, 0), \<lparr>ptype = R, pcolor = B\<rparr>),
       ((0, 1), \<lparr>ptype = N, pcolor = B\<rparr>),
       ((0, 2), \<lparr>ptype = Bi, pcolor = B\<rparr>),
       ((0, 3), \<lparr>ptype = Q, pcolor = B\<rparr>),
       ((0, 4), \<lparr>ptype = K, pcolor = B\<rparr>),
       ((0, 5), \<lparr>ptype = Bi, pcolor = B\<rparr>),
       ((0, 6), \<lparr>ptype = N, pcolor = B\<rparr>),
       ((0, 7), \<lparr>ptype = R, pcolor = B\<rparr>),
       ((1, 0), \<lparr>ptype = P, pcolor = B\<rparr>),
       ((1, 1), \<lparr>ptype = P, pcolor = B\<rparr>),
       ((1, 2), \<lparr>ptype = P, pcolor = B\<rparr>),
       ((1, 3), \<lparr>ptype = P, pcolor = B\<rparr>),
       ((1, 4), \<lparr>ptype = P, pcolor = B\<rparr>),
       ((1, 5), \<lparr>ptype = P, pcolor = B\<rparr>),
       ((1, 6), \<lparr>ptype = P, pcolor = B\<rparr>),
       ((1, 7), \<lparr>ptype = P, pcolor = B\<rparr>),
       ((6, 0), \<lparr>ptype = P, pcolor = W\<rparr>),
       ((6, 1), \<lparr>ptype = P, pcolor = W\<rparr>),
       ((6, 2), \<lparr>ptype = P, pcolor = W\<rparr>),
       ((6, 3), \<lparr>ptype = P, pcolor = W\<rparr>),
       ((6, 4), \<lparr>ptype = P, pcolor = W\<rparr>),
       ((6, 5), \<lparr>ptype = P, pcolor = W\<rparr>),
       ((6, 6), \<lparr>ptype = P, pcolor = W\<rparr>),
       ((6, 7), \<lparr>ptype = P, pcolor = W\<rparr>),
       ((7, 0), \<lparr>ptype = R, pcolor = W\<rparr>),
       ((7, 1), \<lparr>ptype = N, pcolor = W\<rparr>),
       ((7, 2), \<lparr>ptype = Bi, pcolor = W\<rparr>),
       ((7, 3), \<lparr>ptype = Q, pcolor = W\<rparr>),
       ((7, 4), \<lparr>ptype = K, pcolor = W\<rparr>),
       ((7, 5), \<lparr>ptype = Bi, pcolor = W\<rparr>),
       ((7, 6), \<lparr>ptype = N, pcolor = W\<rparr>),
       ((7, 7), \<lparr>ptype = R, pcolor = W\<rparr>)])"

definition STARTING :: "nat \<Rightarrow> nat \<Rightarrow> Piece option" where
  "STARTING row col = map_of (snd STARTING_LAYOUT) (row, col)"

text \<open>
  The positions used below. \<open>kr_root\<close> is \<open>7k/8/6K1/8/8/8/8/R7 b\<close>: Black has the one
  legal move Kg8, after which (\<open>kr_reply\<close>) White has nineteen legal moves, five by the
  king and fourteen by the rook; Ra8 mates (\<open>kr_mate\<close>) and no other reply ends the game.
  \<open>kr_stale\<close> is \<open>k7/1R6/1K6/8/8/8/8/8 b\<close>, a stalemate. \<open>promo\<close> is
  \<open>8/P6k/8/8/8/8/8/K7 w\<close>, where White has the four promotions on a8 and three king
  moves. From the starting position the book holds only the line 1. e4 d5 2. exd5.
\<close>

definition kr_root :: layout where
  "kr_root =
     (B, [((0, 7), \<lparr>ptype = K, pcolor = B\<rparr>), ((2, 6), \<lparr>ptype = K, pcolor = W\<rparr>),
          ((7, 0), \<lparr>ptype = R, pcolor = W\<rparr>)])"

definition kr_reply :: layout where
  "kr_reply = relocate kr_root (plain B K ''h8'' ''g8'')"

definition kr_mate :: layout where
  "kr_mate = relocate kr_reply (plain W R ''a1'' ''a8'')"

definition kr_stale :: layout where
  "kr_stale =
     (B, [((0, 0), \<lparr>ptype = K, pcolor = B\<rparr>), ((2, 1), \<lparr>ptype = K, pcolor = W\<rparr>),
          ((1, 1), \<lparr>ptype = R, pcolor = W\<rparr>)])"

definition kr_replies :: "Move list" where
  "kr_replies =
     [plain W K ''g6'' ''h6'', plain W K ''g6'' ''h5'', plain W K ''g6'' ''g5'',
      plain W K ''g6'' ''f5'', plain W K ''g6'' ''f6'', plain W R ''a1'' ''a2'',
      plain W R ''a1'' ''a3'', plain W R ''a1'' ''a4'', plain W R ''a1'' ''a5'',
      plain W R ''a1'' ''a6'', plain W R ''a1'' ''a7'', plain W R ''a1'' ''a8'',
      plain W R ''a1'' ''b1'', plain W R ''a1'' ''c1'', plain W R ''a1'' ''d1'',
      plain W R ''a1'' ''e1'', plain W R ''a1'' ''f1'', plain W R ''a1'' ''g1'',
      plain W R ''a1'' ''h1'']"

definition promo :: layout where
  "promo =
     (W, [((1, 0), \<lparr>ptype = P, pcolor = W\<rparr>), ((7, 0), \<lparr>ptype = K, pcolor = W\<rparr>),
          ((1, 7), \<lparr>ptype = K, pcolor = B\<rparr>)])"

definition queening :: "PieceSymbol \<Rightarrow> Move" where
  "queening x =
     \<lparr>color = W, mfrom = ''a7'', mto = ''a8'', piece = P, captured = None, promotion = Some x\<rparr>"

definition exd5 :: Move where
  "exd5 =
     \<lparr>color = W, mfrom = ''e4'', mto = ''d5'', piece = P, captured = Some P, promotion = None\<rparr>"

definition after_e4 :: layout where
  "after_e4 = relocate STARTING_LAYOUT (plain W P ''e2'' ''e4'')"

definition after_d5 :: layout where
  "after_d5 = relocate after_e4 (plain B P ''d7'' ''d5'')"

definition demo :: "layout rules" where
  "demo =
     scripted
       [(kr_root, [plain B K ''h8'' ''g8'']),
        (kr_reply, kr_replies),
        (promo, [queening Q, queening R, queening Bi, queening N,
                 plain W K ''a1'' ''a2'', plain W K ''a1'' ''b1'', plain W K ''a1'' ''b2'']),
        (STARTING_LAYOUT, [plain W P ''e2'' ''e4'']),
        (after_e4, [plain B P ''d7'' ''d5'']),
        (after_d5, [exd5])]
       [kr_mate] [kr_stale]"

definition fresh :: "layout \<Rightarrow> Difficulty \<Rightarrow> layout ChessEngine" where
  "fresh p d = \<lparr>game = \<lparr>position = p, made = []\<rparr>, difficulty = d, playerColor = W\<rparr>"

subsection \<open>The line 1. e4 d5 2. exd5\<close>

text \<open>The engine after three calls of \<open>makeMove\<close> from the starting position.\<close>

definition line3 :: "layout ChessEngine" where
  "line3 =
     snd (makeMove demo
       (snd (makeMove demo
         (snd (makeMove demo (fresh STARTING_LAYOUT Medium) ''e2'' ''e4'' None))
         ''d7'' ''d5'' None))
       ''e4'' ''d5'' None)"

text \<open>A random source that always returns \<open>0\<close>.\<close>

definition no_shuffle :: "nat \<Rightarrow> real" where
  "no_shuffle i = 0"

section \<open>Notions of the specification\<close>

text \<open>The number of history entries made by side \<open>c\<close> that carry a captured piece.\<close>

definition capture_count :: "Color \<Rightarrow> Move list \<Rightarrow> nat" where
  "capture_count c h = length (filter (\<lambda>m. color m = c \<and> captured m \<noteq> None) h)"

text \<open>
  What a search with window \<open>(lo, hi)\<close> promises about its result \<open>r\<close> when the unpruned
  value is \<open>v\<close>: below \<open>hi\<close> the result is an upper bound of \<open>v\<close>, above \<open>lo\<close> a lower
  bound, so strictly inside the window it is \<open>v\<close>.
\<close>

definition sound :: "('a::linorder) \<Rightarrow> 'a \<Rightarrow> 'a \<Rightarrow> 'a \<Rightarrow> bool" where
  "sound lo hi v r = ((r < hi \<longrightarrow> v \<le> r) \<and> (lo < r \<longrightarrow> r \<le> v))"

section \<open>Properties of the search\<close>

subsection \<open>Every move played is taken back\<close>

lemma undo_push: "snd (undo (push E g m)) = g"
  by (cases g) (simp add: undo_def push_def)

lemma frame_all:
  "snd (minimax E d alpha beta mx g) = g"
  "snd (max_loop E d ms maxEval alpha beta g) = g"
  "snd (min_loop E d ms minEval alpha beta g) = g"
proof (induction E d alpha beta mx g and E d ms maxEval alpha beta g and E d ms minEval alpha beta g
    rule: minimax_max_loop_min_loop.induct)
  case (1 E alpha beta isMaximizing g)
  then show ?case by simp
next
  case (2 E d alpha beta isMaximizing g)
  then show ?case by simp
next
  case (3 E d maxEval alpha beta g)
  then show ?case by simp
next
  case (4 E d m ms maxEval alpha beta g)
  obtain ev g' where r: "minimax E d alpha beta False (push E g m) = (ev, g')"
    by (cases "minimax E d alpha beta False (push E g m)")
  from "4.IH"(1) r have g': "g' = push E g m" by simp
  show ?case
  proof (cases "beta \<le> max alpha ev")
    case True
    then show ?thesis using r g' by (simp add: undo_push)
  next
    case False
    then show ?thesis using "4.IH"(2)[OF r[symmetric] refl refl refl False] r g'
      by (simp add: undo_push)
  qed
next
  case (5 E d minEval alpha beta g)
  then show ?case by simp
next
  case (6 E d m ms minEval alpha beta g)
  obtain ev g' where r: "minimax E d alpha beta True (push E g m) = (ev, g')"
    by (cases "minimax E d alpha beta True (push E g m)")
  from "6.IH"(1) r have g': "g' = push E g m" by simp
  show ?case
  proof (cases "min beta ev \<le> alpha")
    case True
    then show ?thesis using r g' by (simp add: undo_push)
  next
    case False
    then show ?thesis using "6.IH"(2)[OF r[symmetric] refl refl refl False] r g'
      by (simp add: undo_push)
  qed
qed

subsection \<open>Order facts\<close>

lemma NegInf_least [simp]: "NegInf \<le> x"
  by simp

lemma PosInf_greatest [simp]: "x \<le> PosInf"
  by (cases x) simp_all

lemma fold_max_acc: "fold max xs (max a c) = max c (fold max xs (a::num))"
proof (induction xs arbitrary: a)
  case Nil
  show ?case by (simp add: max.commute)
next
  case (Cons x xs)
  have "max x (max a c) = max (max x a) c" by (simp add: max.assoc)
  then show ?case using Cons[of "max x a"] by simp
qed

lemma fold_min_acc: "fold min xs (min a c) = min c (fold min xs (a::num))"
proof (induction xs arbitrary: a)
  case Nil
  show ?case by (simp add: min.commute)
next
  case (Cons x xs)
  have "min x (min a c) = min (min x a) c" by (simp add: min.assoc)
  then show ?case using Cons[of "min x a"] by simp
qed

lemma max_step:
  assumes c: "sound alpha beta c ev" and m: "maxEval \<le> alpha" and ab: "alpha < beta"
    and go: "\<not> beta \<le> max alpha ev \<Longrightarrow> sound (max alpha ev) beta (max ev F) r"
    and stop: "beta \<le> max alpha ev \<Longrightarrow> r = max maxEval ev"
  shows "sound alpha beta (max c F) r"
proof (cases "beta \<le> ev")
  case True
  from m ab True have "maxEval \<le> ev" by (meson order_trans less_imp_le)
  then have "max maxEval ev = ev" by (simp add: max_def)
  moreover from True have "beta \<le> max alpha ev" by (simp add: le_max_iff_disj)
  ultimately have r: "r = ev" using stop by simp
  from True ab have "alpha < ev" by simp
  with c have "ev \<le> c" by (simp add: sound_def)
  with r True show ?thesis by (auto simp: sound_def le_max_iff_disj dest: leD)
next
  case False
  then have lt: "ev < beta" by simp
  with c have cev: "c \<le> ev" by (simp add: sound_def)
  from lt ab have "\<not> beta \<le> max alpha ev" by (simp add: not_le)
  then have ih: "sound (max alpha ev) beta (max ev F) r" by (rule go)
  have low: "max c F \<le> r" if "r < beta"
  proof -
    from ih that have "max ev F \<le> r" by (simp add: sound_def)
    with cev show ?thesis by auto
  qed
  have high: "r \<le> max c F" if "alpha < r"
  proof (cases "max alpha ev < r")
    case True
    with ih have rr: "r \<le> max ev F" by (simp add: sound_def)
    show ?thesis
    proof (cases "alpha < ev")
      case True
      with c have "ev \<le> c" by (simp add: sound_def)
      with rr show ?thesis by (auto simp: le_max_iff_disj)
    next
      case False
      with \<open>max alpha ev < r\<close> have "ev < r" by simp
      with rr show ?thesis by (auto simp: le_max_iff_disj)
    qed
  next
    case False
    then have "r \<le> max alpha ev" by (auto simp: not_less le_max_iff_disj)
    with that have "r \<le> ev" and "alpha < ev" by (auto simp: le_max_iff_disj)
    with c have "r \<le> c" by (auto simp: sound_def)
    then show ?thesis by (simp add: le_max_iff_disj)
  qed
  from low high show ?thesis by (simp add: sound_def)
qed

lemma min_step:
  assumes c: "sound alpha beta c ev" and m: "beta \<le> minEval" and ab: "alpha < beta"
    and go: "\<not> min beta ev \<le> alpha \<Longrightarrow> sound alpha (min beta ev) (min ev F) r"
    and stop: "min beta ev \<le> alpha \<Longrightarrow> r = min minEval ev"
  shows "sound alpha beta (min c F) r"
proof (cases "ev \<le> alpha")
  case True
  from m ab True have "ev \<le> minEval" by (meson order_trans less_imp_le)
  then have "min minEval ev = ev" by (simp add: min_def)
  moreover from True have "min beta ev \<le> alpha" by (simp add: min_le_iff_disj)
  ultimately have r: "r = ev" using stop by simp
  from True ab have "ev < beta" by simp
  with c have "c \<le> ev" by (simp add: sound_def)
  with r True show ?thesis by (auto simp: sound_def min_le_iff_disj dest: leD)
next
  case False
  then have lt: "alpha < ev" by simp
  with c have cev: "ev \<le> c" by (simp add: sound_def)
  from lt ab have "\<not> min beta ev \<le> alpha" by (simp add: not_le)
  then have ih: "sound alpha (min beta ev) (min ev F) r" by (rule go)
  have high: "r \<le> min c F" if "alpha < r"
  proof -
    from ih that have "r \<le> min ev F" by (simp add: sound_def)
    with cev show ?thesis by auto
  qed
  have low: "min c F \<le> r" if "r < beta"
  proof (cases "r < min beta ev")
    case True
    with ih have rr: "min ev F \<le> r" by (simp add: sound_def)
    show ?thesis
    proof (cases "ev < beta")
      case True
      with c have "c \<le> ev" by (simp add: sound_def)
      with rr show ?thesis by (auto simp: min_le_iff_disj)
    next
      case False
      with \<open>r < min beta ev\<close> have "r < ev" by simp
      with rr show ?thesis by (auto simp: min_le_iff_disj)
    qed
  next
    case False
    then have "min beta ev \<le> r" by (auto simp: not_less min_le_iff_disj)
    with that have "ev \<le> r" and "ev < beta" by (auto simp: min_le_iff_disj)
    with c have "c \<le> r" by (auto simp: sound_def)
    then show ?thesis by (simp add: min_le_iff_disj)
  qed
  from low high show ?thesis by (simp add: sound_def)
qed

subsection \<open>The value of the pruned search\<close>

lemma evaluateBoard_position:
  "evaluateBoard E \<lparr>position = position g, made = []\<rparr> = evaluateBoard E g"
  by (simp add: evaluateBoard_def)

lemma position_push: "position (push E g m) = apply_to E (position g) m"
  by (simp add: push_def)
lemma value_all:
  "alpha < beta \<Longrightarrow>
     sound alpha beta (unpruned_minimax E d mx (position g)) (fst (minimax E d alpha beta mx g))"
  "alpha < beta \<Longrightarrow> maxEval \<le> alpha \<Longrightarrow>
     sound alpha beta
       (fold max (map (\<lambda>m. unpruned_minimax E d False (apply_to E (position g) m)) ms) maxEval)
       (fst (max_loop E d ms maxEval alpha beta g))"
  "alpha < beta \<Longrightarrow> beta \<le> minEval \<Longrightarrow>
     sound alpha beta
       (fold min (map (\<lambda>m. unpruned_minimax E d True (apply_to E (position g) m)) ms) minEval)
       (fst (min_loop E d ms minEval alpha beta g))"
proof (induction E d alpha beta mx g and E d ms maxEval alpha beta g and E d ms minEval alpha beta g
    rule: minimax_max_loop_min_loop.induct)
  case (1 E alpha beta isMaximizing g)
  show ?case by (simp add: evaluateBoard_position sound_def)
next
  case (2 E d alpha beta isMaximizing g)
  show ?case
  proof (cases "isGameOver E (position g)")
    case True
    then show ?thesis by (simp add: evaluateBoard_position sound_def)
  next
    case False
    show ?thesis
    proof (cases isMaximizing)
      case True
      with False "2.IH"(1)[OF False True "2.prems"] show ?thesis by simp
    next
      case nm: False
      with False "2.IH"(2)[OF False nm "2.prems"] show ?thesis by simp
    qed
  qed
next
  case (3 E d maxEval alpha beta g)
  show ?case by (simp add: sound_def)
next
  case (4 E d m ms maxEval alpha beta g)
  obtain ev g' where r: "minimax E d alpha beta False (push E g m) = (ev, g')"
    by (cases "minimax E d alpha beta False (push E g m)")
  from frame_all(1)[of E d alpha beta False "push E g m"] r have g': "g' = push E g m" by simp
  let ?c = "unpruned_minimax E d False (apply_to E (position g) m)"
  let ?F = "fold max (map (\<lambda>m. unpruned_minimax E d False (apply_to E (position g) m)) ms) maxEval"
  from "4.IH"(1)[OF "4.prems"(1)] r have c: "sound alpha beta ?c ev"
    by (simp add: position_push)
  have go: "sound (max alpha ev) beta (max ev ?F) (fst (max_loop E d (m # ms) maxEval alpha beta g))"
    if nb: "\<not> beta \<le> max alpha ev"
  proof -
    from nb have lt: "max alpha ev < beta" by (simp add: not_le)
    have le: "max maxEval ev \<le> max alpha ev" using "4.prems"(2) by (auto simp: le_max_iff_disj)
    from "4.IH"(2)[OF r[symmetric] refl refl refl nb lt le] r g' nb
    show ?thesis by (simp add: undo_push fold_max_acc)
  qed
  have stop: "fst (max_loop E d (m # ms) maxEval alpha beta g) = max maxEval ev"
    if "beta \<le> max alpha ev"
    using that r by simp
  have "sound alpha beta (max ?c ?F) (fst (max_loop E d (m # ms) maxEval alpha beta g))"
    by (rule max_step[OF c "4.prems"(2) "4.prems"(1) go stop])
  then show ?case by (simp add: fold_max_acc max.commute)
next
  case (5 E d minEval alpha beta g)
  show ?case by (simp add: sound_def)
next
  case (6 E d m ms minEval alpha beta g)
  obtain ev g' where r: "minimax E d alpha beta True (push E g m) = (ev, g')"
    by (cases "minimax E d alpha beta True (push E g m)")
  from frame_all(1)[of E d alpha beta True "push E g m"] r have g': "g' = push E g m" by simp
  let ?c = "unpruned_minimax E d True (apply_to E (position g) m)"
  let ?F = "fold min (map (\<lambda>m. unpruned_minimax E d True (apply_to E (position g) m)) ms) minEval"
  from "6.IH"(1)[OF "6.prems"(1)] r have c: "sound alpha beta ?c ev"
    by (simp add: position_push)
  have go: "sound alpha (min beta ev) (min ev ?F) (fst (min_loop E d (m # ms) minEval alpha beta g))"
    if nb: "\<not> min beta ev \<le> alpha"
  proof -
    from nb have lt: "alpha < min beta ev" by (simp add: not_le)
    have le: "min beta ev \<le> min minEval ev" using "6.prems"(2) by (auto simp: min_le_iff_disj)
    from "6.IH"(2)[OF r[symmetric] refl refl refl nb lt le] r g' nb
    show ?thesis by (simp add: undo_push fold_min_acc)
  qed
  have stop: "fst (min_loop E d (m # ms) minEval alpha beta g) = min minEval ev"
    if "min beta ev \<le> alpha"
    using that r by simp
  have "sound alpha beta (min ?c ?F) (fst (min_loop E d (m # ms) minEval alpha beta g))"
    by (rule min_step[OF c "6.prems"(2) "6.prems"(1) go stop])
  then show ?case by (simp add: fold_min_acc min.commute)
qed

lemma NegInf_less_PosInf: "NegInf < PosInf"
  by (simp add: less_num_def)

lemma sound_full: "sound NegInf PosInf v r \<Longrightarrow> r = v"
  by (cases r; cases v) (auto simp: sound_def less_num_def)

lemma minimax_full_window:
  "fst (minimax E d NegInf PosInf mx g) = unpruned_minimax E d mx (position g)"
  by (rule sound_full[OF value_all(1)[OF NegInf_less_PosInf]])

subsection \<open>The root loop and the shuffle\<close>

lemma best_loop_frame: "snd (snd (best_loop E depth mx ms bm bv g)) = g"
proof (induction ms arbitrary: bm bv)
  case Nil
  show ?case by simp
next
  case (Cons m ms)
  obtain v g' where r: "minimax E (depth - 1) NegInf PosInf (\<not> mx) (push E g m) = (v, g')"
    by (cases "minimax E (depth - 1) NegInf PosInf (\<not> mx) (push E g m)")
  from frame_all(1)[of E "depth - 1" NegInf PosInf "\<not> mx" "push E g m"] r
  have "g' = push E g m" by simp
  with r Cons show ?case by (cases mx) (auto simp: undo_push)
qed

lemma best_loop_max:
  "fst (snd (best_loop E depth True ms bm bv g)) =
     fold max (map (\<lambda>m. unpruned_minimax E (depth - 1) False (apply_to E (position g) m)) ms) bv"
proof (induction ms arbitrary: bm bv)
  case Nil
  show ?case by simp
next
  case (Cons m ms)
  obtain v g' where r: "minimax E (depth - 1) NegInf PosInf False (push E g m) = (v, g')"
    by (cases "minimax E (depth - 1) NegInf PosInf False (push E g m)")
  from frame_all(1)[of E "depth - 1" NegInf PosInf False "push E g m"] r
  have g': "g' = push E g m" by simp
  from minimax_full_window[of E "depth - 1" False "push E g m"] r
  have v: "v = unpruned_minimax E (depth - 1) False (apply_to E (position g) m)"
    by (simp add: position_push)
  show ?case
  proof (cases "bv < v")
    case True
    then have "max v bv = v" by (simp add: max.absorb1 less_imp_le)
    with True r g' v Cons[of "Some m" v] show ?thesis by (simp add: undo_push)
  next
    case False
    then have "max v bv = bv" by (simp add: max.absorb2 not_less)
    with False r g' v Cons[of bm bv] show ?thesis by (simp add: undo_push)
  qed
qed

lemma best_loop_min:
  "fst (snd (best_loop E depth False ms bm bv g)) =
     fold min (map (\<lambda>m. unpruned_minimax E (depth - 1) True (apply_to E (position g) m)) ms) bv"
proof (induction ms arbitrary: bm bv)
  case Nil
  show ?case by simp
next
  case (Cons m ms)
  obtain v g' where r: "minimax E (depth - 1) NegInf PosInf True (push E g m) = (v, g')"
    by (cases "minimax E (depth - 1) NegInf PosInf True (push E g m)")
  from frame_all(1)[of E "depth - 1" NegInf PosInf True "push E g m"] r
  have g': "g' = push E g m" by simp
  from minimax_full_window[of E "depth - 1" True "push E g m"] r
  have v: "v = unpruned_minimax E (depth - 1) True (apply_to E (position g) m)"
    by (simp add: position_push)
  show ?case
  proof (cases "v < bv")
    case True
    then have "min v bv = v" by (simp add: min.absorb1 less_imp_le)
    with True r g' v Cons[of "Some m" v] show ?thesis by (simp add: undo_push)
  next
    case False
    then have "min v bv = bv" by (simp add: min.absorb2 not_less)
    with False r g' v Cons[of bm bv] show ?thesis by (simp add: undo_push)
  qed
qed

lemma draw_in_range:
  assumes "0 \<le> u" "u < 1"
  shows "nat \<lfloor>u * real (Suc i + 1)\<rfloor> < Suc i + 1"
proof -
  have "u * real (Suc i + 1) < real (Suc i + 1)" using assms by simp
  then have "\<lfloor>u * real (Suc i + 1)\<rfloor> < int (Suc i + 1)" by (simp add: floor_less_iff)
  then show ?thesis by linarith
qed

lemma shuffle_loop_mset:
  assumes "\<forall>i. 0 \<le> rnd i \<and> rnd i < 1"
  shows "i < length array \<Longrightarrow> mset (shuffle_loop rnd i array) = mset array"
proof (induction i arbitrary: array)
  case 0
  show ?case by simp
next
  case (Suc i)
  let ?j = "nat \<lfloor>rnd (Suc i) * real (Suc i + 1)\<rfloor>"
  from assms have "?j < Suc i + 1" by (intro draw_in_range) auto
  with Suc.prems have j: "?j < length array" by simp
  have "mset (array[Suc i := array ! ?j, ?j := array ! Suc i]) = mset array"
    using j Suc.prems by (rule mset_swap)
  moreover have "i < length (array[Suc i := array ! ?j, ?j := array ! Suc i])"
    using Suc.prems by simp
  ultimately show ?case using Suc.IH[of "array[Suc i := array ! ?j, ?j := array ! Suc i]"]
    by (simp add: Let_def)
qed

lemma shuffleArray_mset:
  assumes "\<forall>i. 0 \<le> rnd i \<and> rnd i < 1"
  shows "mset (shuffleArray rnd array) = mset array"
proof (cases array)
  case Nil
  then show ?thesis by (simp add: shuffleArray_def)
next
  case (Cons x xs)
  then have "length array - 1 < length array" by simp
  then show ?thesis unfolding shuffleArray_def by (rule shuffle_loop_mset[OF assms])
qed

lemma fold_max_perm:
  "mset xs = mset ys \<Longrightarrow> fold max (map f xs) (a::num) = fold max (map f ys) a"
proof -
  assume "mset xs = mset ys"
  then have "mset (map f xs) = mset (map f ys)" by simp
  then have "fold max (map f xs) = fold max (map f ys)"
    by (intro fold_multiset_equiv) (auto simp: fun_eq_iff max.left_commute)
  then show ?thesis by simp
qed

lemma fold_min_perm:
  "mset xs = mset ys \<Longrightarrow> fold min (map f xs) (a::num) = fold min (map f ys) a"
proof -
  assume "mset xs = mset ys"
  then have "mset (map f xs) = mset (map f ys)" by simp
  then have "fold min (map f xs) = fold min (map f ys)"
    by (intro fold_multiset_equiv) (auto simp: fun_eq_iff min.left_commute)
  then show ?thesis by simp
qed

lemma getSearchDepth_Suc: "getSearchDepth d = Suc (getSearchDepth d - 1)"
  by (cases d) simp_all

lemma search_root_value:
  assumes rnd: "\<forall>i. 0 \<le> rnd i \<and> rnd i < 1"
    and live: "\<not> isGameOver E (position (game e))"
  shows "fst (snd (search_root E rnd e)) =
           unpruned_minimax E (getSearchDepth (difficulty e))
             (turn E (position (game e)) = W) (position (game e))"
proof -
  let ?p = "position (game e)"
  let ?d = "getSearchDepth (difficulty e)"
  have ms: "mset (shuffleArray rnd (legal E ?p)) = mset (legal E ?p)"
    by (rule shuffleArray_mset[OF rnd])
  have u: "unpruned_minimax E ?d mx ?p = unpruned_minimax E (Suc (?d - 1)) mx ?p" for mx
    using getSearchDepth_Suc[of "difficulty e"] by simp
  show ?thesis
  proof (cases "turn E ?p = W")
    case True
    with live show ?thesis
      unfolding u
      by (simp add: search_root_def best_loop_max fold_max_perm[OF ms])
  next
    case False
    with live show ?thesis
      unfolding u
      by (simp add: search_root_def best_loop_min fold_min_perm[OF ms])
  qed
qed

subsection \<open>Facts about the scripted positions\<close>

lemma upt8: "[0..<8] = [0, 1, 2, 3, 4, 5, 6, 7]"
  by (simp add: upt_rec)

lemma shuffleArray_single: "shuffleArray rnd [x] = [x]"
  by (simp add: shuffleArray_def)

lemma kr_root_facts:
  "legal demo kr_root = [plain B K ''h8'' ''g8'']"
  "\<not> isGameOver demo kr_root"
  "turn demo kr_root = B"
  by code_simp+

lemma kr_reply_search:
  "fst (minimax demo 1 NegInf PosInf True
     (push demo \<lparr>position = kr_root, made = []\<rparr> (plain B K ''h8'' ''g8''))) = PosInf"
  by code_simp
lemma demo_terminal_facts:
  "isCheckmate demo kr_mate" "turn demo kr_mate = B"
  "isStalemate demo kr_stale" "isDraw demo kr_stale" "\<not> isCheckmate demo kr_stale"
  "\<not> isStalemate demo kr_mate"
  by code_simp+
lemma starting_facts:
  "\<not> isCheckmate demo STARTING_LAYOUT" "\<not> isDraw demo STARTING_LAYOUT"
  "material demo STARTING_LAYOUT = 0"
  by code_simp+
lemma e2e5_rejected:
  "resolve demo (position (game (fresh STARTING_LAYOUT Medium))) ''e2'' ''e5''
     (case None of Some x \<Rightarrow> x | None \<Rightarrow> Q) = None"
  by code_simp
lemma starting_material:
  "fold (\<lambda>row score.
           fold (\<lambda>col score. score + square_score (STARTING row col) row col)
             [0, 1, 2, 3, 4, 5, 6, 7] score)
        [0, 1, 2, 3, 4, 5, 6, 7] 0 = 0"
  by code_simp
lemma demo_board_starting: "board demo STARTING_LAYOUT row col = STARTING row col"
  by (simp add: demo_def scripted_def STARTING_def)
lemma queening_resolved:
  "resolve demo (position (game (fresh promo Medium))) ''a7'' ''a8'' Q = Some (queening Q)"
  by code_simp

subsection \<open>The evaluator and the captured pieces\<close>

lemma evaluateBoard_cases:
  "isCheckmate E (position g) \<Longrightarrow>
     evaluateBoard E g = (if turn E (position g) = W then NegInf else PosInf)"
  "\<not> isCheckmate E (position g) \<Longrightarrow> isDraw E (position g) \<Longrightarrow> evaluateBoard E g = Fin 0"
  "\<not> isCheckmate E (position g) \<Longrightarrow> \<not> isDraw E (position g) \<Longrightarrow>
     evaluateBoard E g = Fin (material E (position g))"
  by (simp_all add: evaluateBoard_def)
lemma getCapturedPieces_loop_eq:
  "getCapturedPieces_loop h acc =
     \<lparr>w = w acc @ List.map_filter (\<lambda>m. if color m = W then captured m else None) h,
      b = b acc @ List.map_filter (\<lambda>m. if color m = B then captured m else None) h\<rparr>"
proof (induction h arbitrary: acc)
  case Nil
  show ?case by (simp add: map_filter_simps)
next
  case (Cons m ms)
  show ?case
  proof (cases "captured m")
    case None
    then show ?thesis by (simp add: Cons map_filter_simps)
  next
    case (Some c)
    then show ?thesis by (cases "color m") (simp_all add: Cons map_filter_simps)
  qed
qed

lemma length_map_filter_captures:
  "length (List.map_filter (\<lambda>m. if color m = c then captured m else None) h) = capture_count c h"
  by (induction h) (auto simp: map_filter_simps capture_count_def split: option.splits)

section \<open>The claims\<close>

subsection \<open>C1: pruning and the unpruned value\<close>

text \<open>
  C1, as stated, fails at an inner node: \<open>minimax\<close> called with a window narrowed by an
  earlier sibling stops at the first reply that reaches \<open>beta\<close> and returns that reply's
  value. In \<open>kr_reply\<close>, with the window \<open>(-Infinity, 0)\<close>, the first reply Kh6 scores
  \<open>500\<close> and ends the loop, while the unpruned value is \<open>Infinity\<close> (Ra8 mates).
\<close>

theorem narrow_window_minimax_differs:
  "fst (minimax demo 1 NegInf (Fin 0) True \<lparr>position = kr_reply, made = []\<rparr>) \<noteq>
     unpruned_minimax demo 1 True (position \<lparr>position = kr_reply, made = []\<rparr>)"
  by code_simp

text \<open>
  C1, amended: \<open>minimax\<close> called with the full window \<open>(-Infinity, Infinity)\<close>, which is how
  \<open>getBestMove\<close> calls it on every candidate, returns the value of unpruned minimax at the
  same depth for the same position and role; and for a position that is not game over,
  whatever the shuffle draws, the \<open>bestValue\<close> that \<open>getBestMove\<close> ends with is the value
  of unpruned minimax at the search depth, maximising when White is to move.
\<close>

theorem full_window_minimax_is_unpruned:
  "fst (minimax E d NegInf PosInf mx g) = unpruned_minimax E d mx (position g) \<and>
   ((\<forall>i. 0 \<le> rnd i \<and> rnd i < 1) \<and> \<not> isGameOver E (position (game e)) \<longrightarrow>
      fst (snd (search_root E rnd e)) =
        unpruned_minimax E (getSearchDepth (difficulty e))
          (turn E (position (game e)) = W) (position (game e)))"
  using minimax_full_window[of E d mx g] search_root_value[of rnd E e] by blast

theorem full_window_minimax_is_unpruned_witness:
  "fst (minimax demo 1 NegInf PosInf True \<lparr>position = kr_reply, made = []\<rparr>) =
     unpruned_minimax demo 1 True kr_reply \<and>
   \<not> isGameOver demo kr_root \<and>
   fst (snd (search_root demo no_shuffle (fresh kr_root Medium))) =
     unpruned_minimax demo 2 False kr_root"
proof -
  have r: "\<forall>i. 0 \<le> no_shuffle i \<and> no_shuffle i < 1"
    by (simp add: no_shuffle_def)
  have g: "\<not> isGameOver demo (position (game (fresh kr_root Medium)))"
    by (simp add: fresh_def kr_root_facts)
  from full_window_minimax_is_unpruned
         [of demo 1 True "\<lparr>position = kr_reply, made = []\<rparr>" no_shuffle "fresh kr_root Medium"]
       r g
  show ?thesis by (simp add: fresh_def kr_root_facts)
qed

subsection \<open>C2: a move whenever there is one\<close>

text \<open>
  C2 fails on the code at medium difficulty in \<open>kr_root\<close>: Black has the legal move Kg8
  and the position is not game over, but the move's value is \<open>Infinity\<close> (White answers
  Ra8 mate), which is not strictly below the initial \<open>bestValue = Infinity\<close>, so
  \<open>bestMove\<close> stays \<open>null\<close>, whatever the shuffle draws.
\<close>

theorem getBestMove_null_with_legal_move:
  "legal demo (position (game (fresh kr_root Medium))) = [plain B K ''h8'' ''g8''] \<and>
   \<not> isGameOver demo (position (game (fresh kr_root Medium))) \<and>
   fst (getBestMove demo rnd (fresh kr_root Medium)) = None"
proof -
  obtain v g' where r: "minimax demo 1 NegInf PosInf True
     (push demo \<lparr>position = kr_root, made = []\<rparr> (plain B K ''h8'' ''g8'')) = (v, g')"
    by (cases "minimax demo 1 NegInf PosInf True
     (push demo \<lparr>position = kr_root, made = []\<rparr> (plain B K ''h8'' ''g8''))")
  with kr_reply_search have v: "v = PosInf" by simp
  show ?thesis
    using r v
    by (simp add: fresh_def kr_root_facts getBestMove_def search_root_def shuffleArray_single)
qed

subsection \<open>C3: captured pieces\<close>

text \<open>
  C3, as stated, fails after 1. e4 d5 2. exd5: \<open>capturedPieces.w\<close> holds the pawn White
  took, while Black has made no capture.
\<close>

theorem capturedPieces_w_not_black_captures:
  "moveHistory (getState demo line3) =
     [plain W P ''e2'' ''e4'', plain B P ''d7'' ''d5'', exd5] \<and>
   length (w (capturedPieces (getState demo line3))) \<noteq>
     capture_count B (moveHistory (getState demo line3))"
  by code_simp

text \<open>
  C3, amended: in every session state and for each side \<open>c\<close>, \<open>capturedPieces[c]\<close> holds
  exactly the pieces captured by side \<open>c\<close> itself, in the order of the history, so its
  length is the number of history entries made by \<open>c\<close> that carry a captured piece.
\<close>

theorem capturedPieces_by_capturing_side:
  "w (capturedPieces (getState E e)) =
     List.map_filter (\<lambda>m. if color m = W then captured m else None) (moveHistory (getState E e)) \<and>
   b (capturedPieces (getState E e)) =
     List.map_filter (\<lambda>m. if color m = B then captured m else None) (moveHistory (getState E e)) \<and>
   length (w (capturedPieces (getState E e))) = capture_count W (moveHistory (getState E e)) \<and>
   length (b (capturedPieces (getState E e))) = capture_count B (moveHistory (getState E e))"
  by (simp add: getState_def Let_def getCapturedPieces_def getCapturedPieces_loop_eq
      length_map_filter_captures)

subsection \<open>C4: the evaluator on terminal positions\<close>

text \<open>
  C4: for a rules library that reports every stalemate as a draw, \<open>evaluateBoard\<close> returns
  \<open>-Infinity\<close> on a checkmate with White to move (White is mated), \<open>Infinity\<close> on a
  checkmate with Black to move, and exactly \<open>0\<close> on every stalemate or draw that is not a
  checkmate; the material sum is not reached.
\<close>

theorem evaluateBoard_terminal:
  assumes "isStalemate E (position g) \<Longrightarrow> isDraw E (position g)"
  shows "(isCheckmate E (position g) \<longrightarrow>
           evaluateBoard E g = (if turn E (position g) = W then NegInf else PosInf)) \<and>
         (\<not> isCheckmate E (position g) \<and> (isStalemate E (position g) \<or> isDraw E (position g)) \<longrightarrow>
           evaluateBoard E g = Fin 0)"
  using assms by (auto simp: evaluateBoard_cases)

theorem evaluateBoard_terminal_witness:
  "isCheckmate demo kr_mate \<and> turn demo kr_mate = B \<and>
   evaluateBoard demo \<lparr>position = kr_mate, made = []\<rparr> = PosInf \<and>
   isStalemate demo kr_stale \<and>
   evaluateBoard demo \<lparr>position = kr_stale, made = []\<rparr> = Fin 0"
proof -
  have m: "isStalemate demo (position \<lparr>position = kr_mate, made = []\<rparr>) \<Longrightarrow>
           isDraw demo (position \<lparr>position = kr_mate, made = []\<rparr>)"
    by (simp add: demo_terminal_facts)
  have s: "isStalemate demo (position \<lparr>position = kr_stale, made = []\<rparr>) \<Longrightarrow>
           isDraw demo (position \<lparr>position = kr_stale, made = []\<rparr>)"
    by (simp add: demo_terminal_facts)
  from evaluateBoard_terminal[OF m] evaluateBoard_terminal[OF s]
  show ?thesis by (simp add: demo_terminal_facts)
qed

subsection \<open>C5: the win probability on terminal positions\<close>

text \<open>
  C5: for a rules library that reports every stalemate as a draw, \<open>getWinProbability\<close>
  returns \<open>{white: 0, black: 100}\<close> on a checkmate with White to move,
  \<open>{white: 100, black: 0}\<close> on a checkmate with Black to move (the side to move is the
  loser), and \<open>{white: 50, black: 50}\<close> on every stalemate or draw that is not a checkmate.
\<close>

theorem getWinProbability_terminal:
  assumes "isStalemate E (position g) \<Longrightarrow> isDraw E (position g)"
  shows "(isCheckmate E (position g) \<longrightarrow>
           getWinProbability E g =
             (if turn E (position g) = W then \<lparr>white = 0, black = 100\<rparr>
              else \<lparr>white = 100, black = 0\<rparr>)) \<and>
         (\<not> isCheckmate E (position g) \<and> (isStalemate E (position g) \<or> isDraw E (position g)) \<longrightarrow>
           getWinProbability E g = \<lparr>white = 50, black = 50\<rparr>)"
  using assms by (auto simp: getWinProbability_def Let_def)

theorem getWinProbability_terminal_witness:
  "isCheckmate demo kr_mate \<and> turn demo kr_mate = B \<and>
   getWinProbability demo \<lparr>position = kr_mate, made = []\<rparr> = \<lparr>white = 100, black = 0\<rparr> \<and>
   isStalemate demo kr_stale \<and>
   getWinProbability demo \<lparr>position = kr_stale, made = []\<rparr> = \<lparr>white = 50, black = 50\<rparr>"
proof -
  have m: "isStalemate demo (position \<lparr>position = kr_mate, made = []\<rparr>) \<Longrightarrow>
           isDraw demo (position \<lparr>position = kr_mate, made = []\<rparr>)"
    by (simp add: demo_terminal_facts)
  have s: "isStalemate demo (position \<lparr>position = kr_stale, made = []\<rparr>) \<Longrightarrow>
           isDraw demo (position \<lparr>position = kr_stale, made = []\<rparr>)"
    by (simp add: demo_terminal_facts)
  from getWinProbability_terminal[OF m] getWinProbability_terminal[OF s]
  show ?thesis by (simp add: demo_terminal_facts)
qed

subsection \<open>C6: the logistic transform\<close>

text \<open>
  C6: the two percentages always sum to \<open>100\<close>, and on a position that is neither a
  checkmate nor a draw the white percentage is
  \<open>round(100 / (1 + 10^(-evaluation / 400)))\<close> for the material evaluation and the black
  percentage is \<open>100\<close> minus the white one. Doubles are read as real numbers.
\<close>

theorem getWinProbability_closure:
  "white (getWinProbability E g) + black (getWinProbability E g) = 100 \<and>
   (\<not> isCheckmate E (position g) \<and> \<not> isDraw E (position g) \<longrightarrow>
      white (getWinProbability E g) =
        round (100 / (1 + 10 powr (- real_of_int (material E (position g)) / 400))) \<and>
      black (getWinProbability E g) = 100 - white (getWinProbability E g))"
  by (simp add: getWinProbability_def Let_def evaluateBoard_def)

theorem getWinProbability_closure_witness:
  "\<not> isCheckmate demo STARTING_LAYOUT \<and> \<not> isDraw demo STARTING_LAYOUT \<and>
   white (getWinProbability demo \<lparr>position = STARTING_LAYOUT, made = []\<rparr>) = 50 \<and>
   black (getWinProbability demo \<lparr>position = STARTING_LAYOUT, made = []\<rparr>) = 50"
  using getWinProbability_closure[of demo "\<lparr>position = STARTING_LAYOUT, made = []\<rparr>"]
  by (simp add: starting_facts)

subsection \<open>C7: the search leaves the game as it found it\<close>

text \<open>
  C7: for every rules library, depth, window and role, \<open>minimax\<close> returns the \<open>Chess\<close>
  object it was given, also when a loop ends by a cutoff, and \<open>getBestMove\<close> returns the
  engine it was given: position and history are those on entry.
\<close>

theorem search_restores_game:
  "snd (minimax E d alpha beta mx g) = g \<and> snd (getBestMove E rnd e) = e"
  by (simp add: frame_all(1) getBestMove_def split_beta search_root_def best_loop_frame Let_def)

subsection \<open>C8: an illegal request changes nothing\<close>

text \<open>
  C8: when the rules library rejects the request \<open>(from, to, promotion || 'q')\<close>,
  \<open>makeMove\<close> returns \<open>null\<close> and the engine, hence the whole state that \<open>getState\<close>
  reports, is unchanged.
\<close>

theorem makeMove_illegal_unchanged:
  assumes "resolve E (position (game e)) f t (case pr of Some x \<Rightarrow> x | None \<Rightarrow> Q) = None"
  shows "makeMove E e f t pr = (None, e) \<and>
         getState E (snd (makeMove E e f t pr)) = getState E e"
  using assms by (simp add: makeMove_def move_request_def)

theorem makeMove_illegal_unchanged_witness:
  "resolve demo STARTING_LAYOUT ''e2'' ''e5'' Q = None \<and>
   makeMove demo (fresh STARTING_LAYOUT Medium) ''e2'' ''e5'' None =
     (None, fresh STARTING_LAYOUT Medium)"
  using makeMove_illegal_unchanged[OF e2e5_rejected] e2e5_rejected
  by (simp add: fresh_def)

subsection \<open>C9: the starting position\<close>

text \<open>
  C9: on a position whose board is the standard starting board, and which the rules
  library reports neither as checkmate nor as draw, \<open>evaluateBoard\<close> returns exactly \<open>0\<close>.
\<close>

theorem evaluateBoard_starting_position:
  assumes "\<And>row col. row < 8 \<Longrightarrow> col < 8 \<Longrightarrow> board E (position g) row col = STARTING row col"
    and "\<not> isCheckmate E (position g)" and "\<not> isDraw E (position g)"
  shows "evaluateBoard E g = Fin 0"
proof -
  have "material E (position g) =
          fold (\<lambda>row score.
                 fold (\<lambda>col score. score + square_score (STARTING row col) row col)
                   [0, 1, 2, 3, 4, 5, 6, 7] score)
               [0, 1, 2, 3, 4, 5, 6, 7] 0"
    by (simp add: material_def upt8 assms(1))
  then have "material E (position g) = 0"
    by (simp only: starting_material)
  with assms(2,3) show ?thesis by (simp add: evaluateBoard_def)
qed

theorem evaluateBoard_starting_position_witness:
  "evaluateBoard demo \<lparr>position = STARTING_LAYOUT, made = []\<rparr> = Fin 0"
  using evaluateBoard_starting_position[of demo "\<lparr>position = STARTING_LAYOUT, made = []\<rparr>"]
  by (simp add: demo_board_starting starting_facts)

subsection \<open>C10: promotion defaults to the queen\<close>

text \<open>
  C10: \<open>makeMove\<close> without a promotion argument submits the request with \<open>'q'\<close>: when the
  rules library resolves \<open>(from, to, 'q')\<close> to a move, that move is played and returned,
  exactly as if \<open>'q'\<close> had been passed.
\<close>

theorem makeMove_default_queen:
  assumes "resolve E (position (game e)) f t Q = Some m"
  shows "makeMove E e f t None = (Some m, e\<lparr>game := push E (game e) m\<rparr>) \<and>
         makeMove E e f t None = makeMove E e f t (Some Q)"
  using assms by (simp add: makeMove_def move_request_def)

theorem makeMove_default_queen_witness:
  "resolve demo promo ''a7'' ''a8'' Q = Some (queening Q) \<and>
   promotion (queening Q) = Some Q \<and>
   fst (makeMove demo (fresh promo Medium) ''a7'' ''a8'' None) = Some (queening Q) \<and>
   board demo (position (game (snd (makeMove demo (fresh promo Medium) ''a7'' ''a8'' None)))) 0 0 =
     Some \<lparr>ptype = Q, pcolor = W\<rparr>"
proof -
  have b: "board demo (apply_to demo promo (queening Q)) 0 0 = Some \<lparr>ptype = Q, pcolor = W\<rparr>"
    by code_simp
  from makeMove_default_queen[OF queening_resolved] queening_resolved b
  show ?thesis by (simp add: fresh_def queening_def push_def)
qed

end
